theory Spec2Isabelle
  imports Main
begin

section \<open>The pattern matcher of directory-mapper\<close>

text \<open>
  The development embeds the gitignore-style matcher of the program: the types
  \<open>Pattern\<close> and \<open>PatternList\<close> and the functions \<open>NewPatternList\<close>, \<open>AddPattern\<close>,
  \<open>splitPattern\<close>, \<open>Matches\<close>, \<open>matches\<close>, \<open>matchSegments\<close> and \<open>matchWildcard\<close>.

  Go strings are byte sequences, so a string is a \<open>char list\<close> and \<open>length\<close> counts bytes.
  A run-time panic of the program (a slice expression out of range) is the value \<open>None\<close>
  of an \<open>option\<close> result. The functions of Go's standard library that the matcher calls
  are modelled from their documented behaviour on a Unix target, where the path separator
  is \<open>/\<close>.
\<close>

subsection \<open>Go's \<open>strings\<close> package\<close>

definition HasPrefix :: "string \<Rightarrow> string \<Rightarrow> bool" where
  "HasPrefix s pre = (take (length pre) s = pre)"

definition HasSuffix :: "string \<Rightarrow> string \<Rightarrow> bool" where
  "HasSuffix s suf = (length suf \<le> length s \<and> drop (length s - length suf) s = suf)"

text \<open>\<open>strings.Contains(s, substr)\<close>: \<open>substr\<close> occurs in \<open>s\<close> as a contiguous run.\<close>

fun Contains :: "string \<Rightarrow> string \<Rightarrow> bool" where
  "Contains [] substr = (substr = [])"
| "Contains (c # s) substr = (HasPrefix (c # s) substr \<or> Contains s substr)"

text \<open>
  \<open>strings.Split(s, sep)\<close> for a separator of one byte, the only use the program makes
  of it. The result is never empty: a string without separator is its only element.
\<close>

fun Split :: "string \<Rightarrow> char \<Rightarrow> string list" where
  "Split [] sep = [[]]"
| "Split (c # s) sep =
     (if c = sep then [] # Split s sep
      else (case Split s sep of [] \<Rightarrow> [[c]] | x # xs \<Rightarrow> (c # x) # xs))"

fun Join :: "string list \<Rightarrow> string \<Rightarrow> string" where
  "Join [] sep = []"
| "Join [x] sep = x"
| "Join (x # y # xs) sep = x @ sep @ Join (y # xs) sep"

text \<open>
  \<open>strings.ReplaceAll(s, old, new)\<close>: the non-overlapping occurrences of \<open>old\<close> are
  replaced from left to right. Both calls of the program pass a non-empty \<open>old\<close>; what Go
  does with an empty one is not modelled (the string is returned as it is).
\<close>

function ReplaceAll :: "string \<Rightarrow> string \<Rightarrow> string \<Rightarrow> string" where
  "ReplaceAll [] old new = []"
| "ReplaceAll (c # s) old new =
     (if old \<noteq> [] \<and> HasPrefix (c # s) old
      then new @ ReplaceAll (drop (length old) (c # s)) old new
      else c # ReplaceAll s old new)"
  by pat_completeness auto
termination
  by (relation "measure (\<lambda>(s, old, new). length s)") auto

text \<open>
  A slice expression \<open>s[lo:hi]\<close>. Go computes the bounds as signed integers and panics
  unless \<open>0 \<le> lo \<le> hi \<le> len(s)\<close>.
\<close>

definition slice :: "string \<Rightarrow> int \<Rightarrow> int \<Rightarrow> string option" where
  "slice s lo hi =
     (if 0 \<le> lo \<and> lo \<le> hi \<and> hi \<le> int (length s)
      then Some (take (nat (hi - lo)) (drop (nat lo) s)) else None)"

subsection \<open>Matching one segment\<close>

text \<open>
  The regular expression that \<open>matchWildcard\<close> writes into its \<open>strings.Builder\<close>:
  \<open>^\<close>, then per byte of the pattern \<open>.*\<close> for \<open>*\<close>, \<open>.\<close> for \<open>?\<close>, and the byte
  itself otherwise (after a backslash when it is one of \<open>[](){}+^$|\.\<close>), then \<open>$\<close>.
\<close>

definition regexSpecial :: "char list" where
  "regexSpecial = ''[](){}+^$|'' @ [CHR 0x5C] @ ''.''"

fun regexBody :: "string \<Rightarrow> string" where
  "regexBody [] = []"
| "regexBody (c # cs) =
     (if c = CHR ''*'' then ''.*''
      else if c = CHR ''?'' then ''.''
      else (if c \<in> set regexSpecial then [CHR 0x5C, c] else [c])) @ regexBody cs"

definition wildcardRegex :: "string \<Rightarrow> string" where
  "wildcardRegex pattern = ''^'' @ regexBody pattern @ ''$''"

text \<open>
  \<open>matchWildcard(pattern, path)\<close>. The regular expression is built first and then not
  used by any of the return statements.
\<close>

definition matchWildcard :: "string \<Rightarrow> string \<Rightarrow> bool option" where
  "matchWildcard pattern path =
     (let regex = wildcardRegex pattern in
      if pattern = ''*'' then Some True
      else if HasPrefix pattern ''*'' \<and> HasSuffix pattern ''*'' then
        (case slice pattern 1 (int (length pattern) - 1) of
           None \<Rightarrow> None
         | Some middle \<Rightarrow> Some (Contains path middle))
      else if HasPrefix pattern ''*'' then
        (case slice pattern 1 (int (length pattern)) of
           None \<Rightarrow> None
         | Some rest \<Rightarrow> Some (HasSuffix path rest))
      else if HasSuffix pattern ''*'' then
        (case slice pattern 0 (int (length pattern) - 1) of
           None \<Rightarrow> None
         | Some front \<Rightarrow> Some (HasPrefix path front))
      else Some (pattern = path))"

subsection \<open>Matching segment lists\<close>

text \<open>
  \<open>matchSegments(patternSegs, pathSegs)\<close>; the receiver is not used by the method.
  The loop over the remaining pattern segments, run when the path is exhausted, is
  \<open>list_all\<close>. In \<open>a || b\<close> the right operand is evaluated only when the left one is false.
\<close>

function matchSegments :: "string list \<Rightarrow> string list \<Rightarrow> bool option" where
  "matchSegments [] pathSegs = Some (pathSegs = [])"
| "matchSegments (patSeg # patRest) [] =
     Some (list_all (\<lambda>seg. seg = ''**'') (patSeg # patRest))"
| "matchSegments (patSeg # patRest) (pathSeg # pathRest) =
     (if patSeg = ''**'' then
        (case matchSegments patRest (pathSeg # pathRest) of
           None \<Rightarrow> None
         | Some True \<Rightarrow> Some True
         | Some False \<Rightarrow> matchSegments (patSeg # patRest) pathRest)
      else
        (case matchWildcard patSeg pathSeg of
           None \<Rightarrow> None
         | Some True \<Rightarrow> matchSegments patRest pathRest
         | Some False \<Rightarrow> Some False))"
  by pat_completeness auto
termination
  by (relation "measure (\<lambda>(patternSegs, pathSegs). length patternSegs + length pathSegs)") auto

subsection \<open>Go's \<open>path/filepath\<close> package on Unix\<close>

text \<open>
  \<open>filepath.Clean\<close> works on the elements between separators: empty elements and \<open>.\<close>
  are dropped, a \<open>..\<close> removes the element before it, is dropped at the root, and is
  kept at the front of a relative path. \<open>cleanElems\<close> keeps the elements written so far
  in reverse order.
\<close>

fun cleanElems :: "bool \<Rightarrow> string list \<Rightarrow> string list \<Rightarrow> string list" where
  "cleanElems rooted [] out = rev out"
| "cleanElems rooted (e # es) out =
     (if e = [] \<or> e = ''.'' then cleanElems rooted es out
      else if e = ''..'' then
        (case out of
           [] \<Rightarrow> if rooted then cleanElems rooted es [] else cleanElems rooted es [''..'']
         | prev # below \<Rightarrow>
             if prev = ''..'' then cleanElems rooted es (''..'' # prev # below)
             else cleanElems rooted es below)
      else cleanElems rooted es (e # out))"

definition Clean :: "string \<Rightarrow> string" where
  "Clean path =
     (if path = [] then ''.''
      else
        let rooted = HasPrefix path ''/'';
            out = Join (cleanElems rooted (Split path CHR ''/'') []) ''/''
        in if rooted then CHR ''/'' # out
           else if out = [] then ''.'' else out)"

text \<open>On Unix \<open>filepath.ToSlash\<close> returns its argument and a path is absolute when it
  begins with the separator.\<close>

definition ToSlash :: "string \<Rightarrow> string" where
  "ToSlash path = path"

definition IsAbs :: "string \<Rightarrow> bool" where
  "IsAbs path = HasPrefix path ''/''"

text \<open>
  \<open>filepath.Rel(basepath, targpath)\<close>. Both paths are cleaned; the positioning loop of
  the library walks the elements of both while they are equal (\<open>stripCommon\<close>), fails
  when the first differing element of the base is \<open>..\<close>, and otherwise answers one
  \<open>..\<close> for each base element left, followed by what is left of the target. It also
  fails when exactly one of the two paths is rooted. \<open>None\<close> is the error result.
\<close>

definition pathElems :: "string \<Rightarrow> string list" where
  "pathElems p = (if p = [] then [] else if p = ''/'' then [[]] else Split p CHR ''/'')"

fun stripCommon :: "string list \<Rightarrow> string list \<Rightarrow> string list \<times> string list" where
  "stripCommon (b # bs) (t # ts) = (if b = t then stripCommon bs ts else (b # bs, t # ts))"
| "stripCommon bs ts = (bs, ts)"

definition Rel :: "string \<Rightarrow> string \<Rightarrow> string option" where
  "Rel basepath targpath =
     (let base = Clean basepath; targ = Clean targpath in
      if targ = base then Some ''.''
      else
        let base = (if base = ''.'' then [] else base) in
        if HasPrefix base ''/'' \<noteq> HasPrefix targ ''/'' then None
        else
          (case stripCommon (pathElems base) (pathElems targ) of
             (bs, ts) \<Rightarrow>
               if bs \<noteq> [] \<and> ts \<noteq> [] \<and> hd bs = ''..'' then None
               else if bs \<noteq> [] then Some (Join (replicate (length bs) ''..'' @ ts) ''/'')
               else Some (Join ts ''/'')))"

subsection \<open>Compiled patterns\<close>

record Pattern =
  original :: string
  segments :: "string list"
  isNegation :: bool
  isExact :: bool
  isDir :: bool

record PatternList =
  patterns :: "Pattern list"
  basePath :: string

text \<open>The error values of the program: what the operating system or the scanner
  reports, and the wrappers \<open>fmt.Errorf\<close> builds around them.\<close>

datatype error =
  OSError string
| ErrTooLong
| CreatingFile string error
| OpeningFile string error
| AddingPattern string error

text \<open>
  \<open>splitPattern\<close> hides every \<open>**\<close> behind a NUL byte, splits on \<open>/\<close> and puts the
  \<open>**\<close> back in each segment.
\<close>

definition splitPattern :: "string \<Rightarrow> string list" where
  "splitPattern pattern =
     (let pattern1 = ReplaceAll pattern ''**'' [CHR 0x00];
          segs = Split (ToSlash pattern1) CHR ''/''
      in map (\<lambda>seg. ReplaceAll seg [CHR 0x00] ''**'') segs)"

text \<open>
  \<open>AddPattern\<close> appends the compiled pattern to the list and returns the list with the
  error result, which is \<open>nil\<close> at its only return statement.
\<close>

definition AddPattern :: "PatternList \<Rightarrow> string \<Rightarrow> (PatternList \<times> error option) option" where
  "AddPattern pl pattern =
     (let neg = HasPrefix pattern ''!'';
          dir = HasSuffix pattern ''/''
      in
      case (if neg then slice pattern 1 (int (length pattern)) else Some pattern) of
        None \<Rightarrow> None
      | Some pattern1 \<Rightarrow>
         (case (if dir then slice pattern1 0 (int (length pattern1) - 1) else Some pattern1) of
            None \<Rightarrow> None
          | Some pattern2 \<Rightarrow>
              let pattern3 = Clean pattern2;
                  p = \<lparr> original = pattern,
                        segments = splitPattern pattern3,
                        isNegation = neg,
                        isExact = (\<not> Contains pattern3 ''*'' \<or> Contains pattern3 ''?''),
                        isDir = dir \<rparr>
              in Some (pl\<lparr>patterns := patterns pl @ [p]\<rparr>, None)))"

subsection \<open>Matching a path\<close>

definition matches :: "Pattern \<Rightarrow> string \<Rightarrow> bool \<Rightarrow> bool option" where
  "matches p path dirFlag =
     (if isDir p \<and> \<not> dirFlag then Some False
      else
        let pathSegments = Split path CHR ''/'' in
        if isExact p then Some (Join (segments p) ''/'' = path)
        else matchSegments (segments p) pathSegments)"

text \<open>The loop of \<open>Matches\<close> over the patterns, with the running \<open>result\<close>.\<close>

fun matchLoop :: "Pattern list \<Rightarrow> string \<Rightarrow> bool \<Rightarrow> bool \<Rightarrow> bool option" where
  "matchLoop [] relPath dirFlag result = Some result"
| "matchLoop (p # ps) relPath dirFlag result =
     (case matches p relPath dirFlag of
        None \<Rightarrow> None
      | Some m \<Rightarrow> matchLoop ps relPath dirFlag (if m then \<not> isNegation p else result))"

text \<open>
  \<open>Matches\<close> asks the file system for the candidate: \<open>stat path\<close> is \<open>None\<close> when
  \<open>os.Stat\<close> returns an error, and \<open>Some d\<close> with \<open>d = info.IsDir()\<close> otherwise.
\<close>

definition Matches :: "(string \<Rightarrow> bool option) \<Rightarrow> PatternList \<Rightarrow> string \<Rightarrow> bool option" where
  "Matches stat pl path =
     (if length (patterns pl) = 0 then Some False
      else
        case (if IsAbs path then Rel (basePath pl) path else Some path) of
          None \<Rightarrow> Some False
        | Some rel \<Rightarrow>
            let relPath = ToSlash (Clean rel) in
            (case stat path of
               None \<Rightarrow> Some False
             | Some dirFlag \<Rightarrow> matchLoop (patterns pl) relPath dirFlag False))"

subsection \<open>Reading the rule file\<close>

text \<open>
  \<open>strings.TrimSpace\<close> removes the leading and the trailing white space of Unicode. On
  the bytes of a string these are the six ASCII characters tab, line feed, vertical tab,
  form feed, carriage return and space, and the UTF-8 encodings of U+0085, U+00A0,
  U+1680, U+2000 to U+200A, U+2028, U+2029, U+202F, U+205F and U+3000.
\<close>

definition spaceRunes :: "string list" where
  "spaceRunes =
     [[CHR 0x09], [CHR 0x0A], [CHR 0x0B], [CHR 0x0C], [CHR 0x0D], [CHR 0x20],
      [CHR 0xC2, CHR 0x85], [CHR 0xC2, CHR 0xA0], [CHR 0xE1, CHR 0x9A, CHR 0x80],
      [CHR 0xE2, CHR 0x80, CHR 0x80], [CHR 0xE2, CHR 0x80, CHR 0x81],
      [CHR 0xE2, CHR 0x80, CHR 0x82], [CHR 0xE2, CHR 0x80, CHR 0x83],
      [CHR 0xE2, CHR 0x80, CHR 0x84], [CHR 0xE2, CHR 0x80, CHR 0x85],
      [CHR 0xE2, CHR 0x80, CHR 0x86], [CHR 0xE2, CHR 0x80, CHR 0x87],
      [CHR 0xE2, CHR 0x80, CHR 0x88], [CHR 0xE2, CHR 0x80, CHR 0x89],
      [CHR 0xE2, CHR 0x80, CHR 0x8A], [CHR 0xE2, CHR 0x80, CHR 0xA8],
      [CHR 0xE2, CHR 0x80, CHR 0xA9], [CHR 0xE2, CHR 0x80, CHR 0xAF],
      [CHR 0xE2, CHR 0x81, CHR 0x9F], [CHR 0xE3, CHR 0x80, CHR 0x80]]"

function trimLeft :: "string \<Rightarrow> string" where
  "trimLeft s =
     (case find (\<lambda>r. HasPrefix s r) spaceRunes of
        None \<Rightarrow> s
      | Some r \<Rightarrow> trimLeft (drop (length r) s))"
  by pat_completeness auto
termination
proof (relation "measure length")
  fix s r
  assume "find (\<lambda>r. HasPrefix s r) spaceRunes = Some r"
  then have "r \<in> set spaceRunes" and "HasPrefix s r"
    by (auto simp: find_Some_iff)
  then have "r \<noteq> []" and "length r \<le> length s"
    by (auto simp: spaceRunes_def HasPrefix_def dest: arg_cong [where f = length])
  then show "(drop (length r) s, s) \<in> measure length"
    by (cases r) auto
qed simp

function trimRight :: "string \<Rightarrow> string" where
  "trimRight s =
     (case find (\<lambda>r. HasSuffix s r) spaceRunes of
        None \<Rightarrow> s
      | Some r \<Rightarrow> trimRight (take (length s - length r) s))"
  by pat_completeness auto
termination
proof (relation "measure length")
  fix s r
  assume "find (\<lambda>r. HasSuffix s r) spaceRunes = Some r"
  then have "r \<in> set spaceRunes" and "HasSuffix s r"
    by (auto simp: find_Some_iff)
  then have "r \<noteq> []" and "length r \<le> length s"
    by (auto simp: spaceRunes_def HasSuffix_def)
  then show "(take (length s - length r) s, s) \<in> measure length"
    by (cases r) auto
qed simp

declare trimLeft.simps [simp del] trimRight.simps [simp del]

definition TrimSpace :: "string \<Rightarrow> string" where
  "TrimSpace s = trimRight (trimLeft s)"

text \<open>
  What the operating system answers for the rule file: whether \<open>os.Stat\<close> reports that it
  does not exist, the results of \<open>os.WriteFile\<close> and \<open>os.Open\<close>, the bytes the reads
  deliver, and the error other than end of file, if any, that ends them.
\<close>

record RuleFile =
  notExist :: bool
  writeErr :: "error option"
  openErr :: "error option"
  content :: string
  readErr :: "error option"

text \<open>
  The \<open>bufio.Scanner\<close> with its default buffer and \<open>ScanLines\<close>: the lines between line
  feeds, each without its trailing carriage return, no empty line after the last line
  feed. A line that does not fit into the buffer of \<open>MaxScanTokenSize\<close> bytes stops the
  scanner with \<open>ErrTooLong\<close>. \<open>scanAll\<close> gives the texts of all successful \<open>Scan\<close>
  calls and the value of \<open>scanner.Err()\<close> after the last one.
\<close>

definition MaxScanTokenSize :: nat where
  "MaxScanTokenSize = 64 * 1024"

definition dropCR :: "string \<Rightarrow> string" where
  "dropCR data = (if data \<noteq> [] \<and> last data = CHR 0x0D then butlast data else data)"

function scanAll :: "string \<Rightarrow> error option \<Rightarrow> string list \<times> error option" where
  "scanAll buf rerr =
     (let line = takeWhile (\<lambda>c. c \<noteq> CHR 0x0A) buf;
          rest = dropWhile (\<lambda>c. c \<noteq> CHR 0x0A) buf
      in if MaxScanTokenSize \<le> length line then ([], Some ErrTooLong)
         else if rest = [] then (if line = [] then [] else [dropCR line], rerr)
         else (case scanAll (tl rest) rerr of (ls, e) \<Rightarrow> (dropCR line # ls, e)))"
  by pat_completeness auto
termination
proof (relation "measure (\<lambda>(buf, rerr). length buf)")
  fix buf :: string and rerr :: "error option" and line rest
  assume "rest = dropWhile (\<lambda>c. c \<noteq> CHR 0x0A) buf" and "rest \<noteq> []"
  then have "length (tl rest) < length rest" and "length rest \<le> length buf"
    by (auto simp: length_dropWhile_le)
  then show "((tl rest, rerr), (buf, rerr)) \<in> measure (\<lambda>(buf, rerr). length buf)"
    by simp
qed simp

declare scanAll.simps [simp del]

text \<open>The loop of \<open>NewPatternList\<close> over the scanned lines.\<close>

fun addLines :: "PatternList \<Rightarrow> string list \<Rightarrow> (PatternList option \<times> error option) option" where
  "addLines pl [] = Some (Some pl, None)"
| "addLines pl (text # rest) =
     (let pattern = TrimSpace text in
      if pattern = [] \<or> HasPrefix pattern ''#'' then addLines pl rest
      else
        (case AddPattern pl pattern of
           None \<Rightarrow> None
         | Some (pl', Some err) \<Rightarrow> Some (None, Some (AddingPattern pattern err))
         | Some (pl', None) \<Rightarrow> addLines pl' rest))"

text \<open>
  \<open>NewPatternList(filename, basePath)\<close> returns a pointer, \<open>None\<close> for \<open>nil\<close>, and an
  error, \<open>None\<close> for \<open>nil\<close>.
\<close>

definition NewPatternList ::
  "RuleFile \<Rightarrow> string \<Rightarrow> string \<Rightarrow> (PatternList option \<times> error option) option" where
  "NewPatternList f filename base =
     (let pl = \<lparr> patterns = [], basePath = base \<rparr> in
      if notExist f then
        (case writeErr f of
           Some err \<Rightarrow> Some (None, Some (CreatingFile filename err))
         | None \<Rightarrow> Some (Some pl, None))
      else
        (case openErr f of
           Some err \<Rightarrow> Some (None, Some (OpeningFile filename err))
         | None \<Rightarrow>
            (case scanAll (content f) (readErr f) of
               (lines, scanErr) \<Rightarrow>
                 (case addLines pl lines of
                    None \<Rightarrow> None
                  | Some (None, err) \<Rightarrow> Some (None, err)
                  | Some (Some pl', err) \<Rightarrow> Some (Some pl', scanErr)))))"

subsection \<open>The specification's single-segment wildcard\<close>

text \<open>
  The anchored matching of the specification, written from its words and not from the
  code: \<open>*\<close> stands for any run of characters, the empty one included, that has no
  \<open>/\<close>; \<open>?\<close> stands for exactly one character; every other character stands for
  itself.
\<close>

fun specWildcard :: "string \<Rightarrow> string \<Rightarrow> bool" where
  "specWildcard [] s = (s = [])"
| "specWildcard (c # p) [] = (c = CHR ''*'' \<and> specWildcard p [])"
| "specWildcard (c # p) (x # s) =
     (if c = CHR ''*'' then specWildcard p (x # s) \<or> (x \<noteq> CHR ''/'' \<and> specWildcard (c # p) s)
      else (c = CHR ''?'' \<or> c = x) \<and> specWildcard p s)"

section \<open>Properties\<close>

subsection \<open>No slice expression panics\<close>

lemma HasPrefix_star: "HasPrefix p ''*'' \<longleftrightarrow> (\<exists>r. p = CHR ''*'' # r)"
  by (cases p) (auto simp: HasPrefix_def)

lemma matchWildcard_total: "matchWildcard pattern path \<noteq> None"
proof (cases "HasPrefix pattern ''*''")
  case True
  then obtain r where r: "pattern = CHR ''*'' # r"
    by (auto simp: HasPrefix_star)
  show ?thesis
  proof (cases r)
    case Nil
    with r show ?thesis by (simp add: matchWildcard_def)
  next
    case (Cons a r')
    with r have "2 \<le> length pattern" by simp
    then show ?thesis
      by (auto simp add: matchWildcard_def slice_def Let_def)
  qed
next
  case npre: False
  show ?thesis
  proof (cases "HasSuffix pattern ''*''")
    case True
    then have "1 \<le> length pattern" by (auto simp: HasSuffix_def)
    with npre True show ?thesis
      by (auto simp add: matchWildcard_def slice_def Let_def)
  next
    case False
    with npre show ?thesis by (auto simp add: matchWildcard_def Let_def)
  qed
qed

lemma matchSegments_total: "matchSegments patternSegs pathSegs \<noteq> None"
proof (induction patternSegs pathSegs rule: matchSegments.induct)
  case (3 patSeg patRest pathSeg pathRest)
  then show ?case
    using matchWildcard_total [of patSeg pathSeg]
    by (auto split: option.splits bool.splits)
qed simp_all

lemma matches_total: "matches p path d \<noteq> None"
  using matchSegments_total by (auto simp add: matches_def Let_def)

lemma matchLoop_total: "matchLoop ps relPath d result \<noteq> None"
proof (induction ps arbitrary: result)
  case Nil
  show ?case by simp
next
  case (Cons p ps)
  obtain m where "matches p relPath d = Some m"
    using matches_total [of p relPath d] by auto
  with Cons show ?case by simp
qed

lemma Matches_total: "Matches stat pl path \<noteq> None"
  using matchLoop_total by (auto simp: Matches_def Let_def split: option.splits)

lemma slice_tail: "s \<noteq> [] \<Longrightarrow> slice s 1 (int (length s)) = Some (tl s)"
  by (cases s) (simp_all add: slice_def)

lemma slice_front: "s \<noteq> [] \<Longrightarrow> slice s 0 (int (length s) - 1) = Some (butlast s)"
proof -
  assume "s \<noteq> []"
  then have "0 < length s" by simp
  then have "nat (int (length s) - 1) = length s - 1" and "(0::int) \<le> int (length s) - 1"
    by simp_all
  then show ?thesis
    by (simp add: slice_def butlast_conv_take)
qed

text \<open>Both slice expressions of \<open>AddPattern\<close> are in range, whatever the line is: the
  function returns, with the compiled pattern appended and the error \<open>nil\<close>.\<close>

lemma AddPattern_result:
  "AddPattern pl line =
     (let p1 = (if HasPrefix line ''!'' then tl line else line);
          p2 = (if HasSuffix line ''/'' then butlast p1 else p1);
          p3 = Clean p2
      in Some (pl\<lparr>patterns := patterns pl @
           [\<lparr>original = line, segments = splitPattern p3,
             isNegation = HasPrefix line ''!'',
             isExact = (\<not> Contains p3 ''*'' \<or> Contains p3 ''?''),
             isDir = HasSuffix line ''/''\<rparr>]\<rparr>, None))"
proof -
  let ?neg = "HasPrefix line ''!''" and ?dir = "HasSuffix line ''/''"
  let ?p1 = "if ?neg then tl line else line"
  have s1: "(if ?neg then slice line 1 (int (length line)) else Some line) = Some ?p1"
  proof (cases ?neg)
    case True
    then have "line \<noteq> []" by (auto simp: HasPrefix_def)
    with True show ?thesis by (simp add: slice_tail)
  next
    case False
    then show ?thesis by simp
  qed
  let ?p2 = "if ?dir then butlast ?p1 else ?p1"
  have s2: "(if ?dir then slice ?p1 0 (int (length ?p1) - 1) else Some ?p1) = Some ?p2"
  proof (cases ?dir)
    case True
    have "?p1 \<noteq> []"
    proof (cases ?neg)
      case neg: True
      then obtain r where r: "line = CHR ''!'' # r"
        by (cases line) (auto simp: HasPrefix_def)
      have "r \<noteq> []"
      proof
        assume "r = []"
        with r True show False by (simp add: HasSuffix_def)
      qed
      with r neg show ?thesis by simp
    next
      case False
      with True show ?thesis by (auto simp: HasSuffix_def)
    qed
    from slice_front [OF this] True show ?thesis by simp
  next
    case False
    then show ?thesis by simp
  qed
  show ?thesis
    unfolding AddPattern_def Let_def by (simp only: s1 s2 option.case)
qed

lemma AddPattern_shape:
  "\<exists>p. AddPattern pl line = Some (pl\<lparr>patterns := patterns pl @ [p]\<rparr>, None) \<and>
       original p = line \<and> isNegation p = HasPrefix line ''!'' \<and>
       isDir p = HasSuffix line ''/''"
proof -
  let ?p3 = "Clean (if HasSuffix line ''/''
                    then butlast (if HasPrefix line ''!'' then tl line else line)
                    else (if HasPrefix line ''!'' then tl line else line))"
  let ?p = "\<lparr>original = line, segments = splitPattern ?p3,
             isNegation = HasPrefix line ''!'',
             isExact = (\<not> Contains ?p3 ''*'' \<or> Contains ?p3 ''?''),
             isDir = HasSuffix line ''/''\<rparr>"
  have "AddPattern pl line = Some (pl\<lparr>patterns := patterns pl @ [?p]\<rparr>, None)"
    by (simp only: AddPattern_result Let_def)
  then show ?thesis
    by (intro exI [of _ ?p]) simp
qed

subsection \<open>Segment lists\<close>

lemma matchSegments_path_exhausted:
  "matchSegments patternSegs [] = Some (list_all (\<lambda>seg. seg = ''**'') patternSegs)"
  by (cases patternSegs) simp_all

lemma matchSegments_doublestar_step:
  "matchSegments (''**'' # patRest) (pathSeg # pathRest) = Some True \<longleftrightarrow>
     matchSegments patRest (pathSeg # pathRest) = Some True \<or>
     matchSegments (''**'' # patRest) pathRest = Some True"
  using matchSegments_total [of patRest "pathSeg # pathRest"]
  by (auto split: option.splits bool.splits)

lemma drop_exists_Cons:
  "(\<exists>k\<le>length (s # ss). P (drop k (s # ss))) \<longleftrightarrow> P (s # ss) \<or> (\<exists>k\<le>length ss. P (drop k ss))"
proof
  assume "\<exists>k\<le>length (s # ss). P (drop k (s # ss))"
  then obtain k where k: "k \<le> length (s # ss)" "P (drop k (s # ss))" by blast
  show "P (s # ss) \<or> (\<exists>k\<le>length ss. P (drop k ss))"
  proof (cases k)
    case 0
    with k show ?thesis by simp
  next
    case (Suc j)
    with k have "j \<le> length ss" and "P (drop j ss)" by simp_all
    then show ?thesis by blast
  qed
next
  assume "P (s # ss) \<or> (\<exists>k\<le>length ss. P (drop k ss))"
  then show "\<exists>k\<le>length (s # ss). P (drop k (s # ss))"
  proof
    assume "P (s # ss)"
    then have "0 \<le> length (s # ss) \<and> P (drop 0 (s # ss))" by simp
    then show ?thesis by blast
  next
    assume "\<exists>k\<le>length ss. P (drop k ss)"
    then obtain k where "k \<le> length ss" and "P (drop k ss)" by blast
    then have "Suc k \<le> length (s # ss) \<and> P (drop (Suc k) (s # ss))" by simp
    then show ?thesis by blast
  qed
qed

lemma matchSegments_doublestar_absorbs:
  "matchSegments (''**'' # patRest) pathSegs = Some True \<longleftrightarrow>
     (\<exists>k\<le>length pathSegs. matchSegments patRest (drop k pathSegs) = Some True)"
proof (induction pathSegs)
  case Nil
  show ?case by (simp add: matchSegments_path_exhausted)
next
  case (Cons s ss)
  show ?case
    using Cons drop_exists_Cons [of s ss "\<lambda>xs. matchSegments patRest xs = Some True"]
    by (simp only: matchSegments_doublestar_step)
qed

subsection \<open>Compiling the example rules\<close>

lemmas compile_defs =
  AddPattern_def HasPrefix_def HasSuffix_def slice_def Clean_def splitPattern_def
  ToSlash_def Let_def

lemma AddPattern_doublestar_test:
  "AddPattern pl ''**/test.txt'' =
     Some (pl\<lparr>patterns := patterns pl @
       [\<lparr>original = ''**/test.txt'', segments = [''**'', ''test.txt''],
         isNegation = False, isExact = False, isDir = False\<rparr>]\<rparr>, None)"
  by (simp add: compile_defs)

lemma AddPattern_a_test:
  "AddPattern pl ''a/test.txt'' =
     Some (pl\<lparr>patterns := patterns pl @
       [\<lparr>original = ''a/test.txt'', segments = [''a'', ''test.txt''],
         isNegation = False, isExact = True, isDir = False\<rparr>]\<rparr>, None)"
  by (simp add: compile_defs)

lemma matchWildcard_test_txt:
  "matchWildcard ''test.txt'' s = Some (''test.txt'' = s)"
  by (simp add: matchWildcard_def HasPrefix_def HasSuffix_def)

lemma AddPattern_star_log:
  "AddPattern pl ''*.log'' =
     Some (pl\<lparr>patterns := patterns pl @
       [\<lparr>original = ''*.log'', segments = [''*.log''],
         isNegation = False, isExact = False, isDir = False\<rparr>]\<rparr>, None)"
  by (simp add: compile_defs)

lemma AddPattern_not_keep_log:
  "AddPattern pl ''!keep.log'' =
     Some (pl\<lparr>patterns := patterns pl @
       [\<lparr>original = ''!keep.log'', segments = [''keep.log''],
         isNegation = True, isExact = True, isDir = False\<rparr>]\<rparr>, None)"
  by (simp add: compile_defs)

lemma AddPattern_build_dir:
  "AddPattern pl ''build/'' =
     Some (pl\<lparr>patterns := patterns pl @
       [\<lparr>original = ''build/'', segments = [''build''],
         isNegation = False, isExact = True, isDir = True\<rparr>]\<rparr>, None)"
  by (simp add: compile_defs)

lemmas match_defs =
  Matches_def IsAbs_def matches_def matchWildcard_def HasPrefix_def HasSuffix_def
  slice_def Clean_def ToSlash_def Let_def

subsection \<open>The loop of \<open>Matches\<close>\<close>

lemma matchLoop_last_match:
  "matchLoop ps relPath d result =
     Some (let hits = filter (\<lambda>p. matches p relPath d = Some True) ps
           in if hits = [] then result else \<not> isNegation (last hits))"
proof (induction ps arbitrary: result)
  case Nil
  show ?case by simp
next
  case (Cons p ps)
  obtain m where m: "matches p relPath d = Some m"
    using matches_total [of p relPath d] by auto
  show ?case
    by (cases m) (simp_all add: m Cons Let_def)
qed

lemma matches_directory_gate: "isDir p \<Longrightarrow> matches p path False = Some False"
  by (simp add: matches_def)

subsection \<open>Claims\<close>

text \<open>
  C4. In \<open>matchSegments\<close> a \<open>**\<close> pattern segment matches zero or more whole path
  segments: against a non-empty path the match succeeds exactly when the pattern without
  the \<open>**\<close> matches the whole remaining path or the pattern with the \<open>**\<close> matches the
  path without its first segment, so that it succeeds exactly when the rest of the
  pattern matches the path after some number of its segments is dropped. When the path is
  exhausted the remaining pattern segments succeed only if all of them are \<open>**\<close>.
  The rule \<open>**/test.txt\<close> matches \<open>test.txt\<close>, \<open>a/test.txt\<close> and \<open>a/b/test.txt\<close>;
  the rule \<open>a/test.txt\<close> matches \<open>a/test.txt\<close> and no other path.
\<close>

theorem doublestar_cross_segment:
  "(matchSegments (''**'' # patRest) (pathSeg # pathRest) = Some True \<longleftrightarrow>
      matchSegments patRest (pathSeg # pathRest) = Some True \<or>
      matchSegments (''**'' # patRest) pathRest = Some True) \<and>
   (matchSegments (''**'' # patRest) pathSegs = Some True \<longleftrightarrow>
      (\<exists>k\<le>length pathSegs. matchSegments patRest (drop k pathSegs) = Some True)) \<and>
   matchSegments patternSegs [] = Some (list_all (\<lambda>seg. seg = ''**'') patternSegs) \<and>
   (\<exists>p. AddPattern pl ''**/test.txt'' = Some (pl\<lparr>patterns := patterns pl @ [p]\<rparr>, None) \<and>
        matches p ''test.txt'' d = Some True \<and>
        matches p ''a/test.txt'' d = Some True \<and>
        matches p ''a/b/test.txt'' d = Some True) \<and>
   (\<exists>q. AddPattern pl ''a/test.txt'' = Some (pl\<lparr>patterns := patterns pl @ [q]\<rparr>, None) \<and>
        (matches q path d = Some True \<longleftrightarrow> path = ''a/test.txt''))"
proof -
  let ?p = "\<lparr>original = ''**/test.txt'', segments = [''**'', ''test.txt''],
             isNegation = False, isExact = False, isDir = False\<rparr>"
  let ?q = "\<lparr>original = ''a/test.txt'', segments = [''a'', ''test.txt''],
             isNegation = False, isExact = True, isDir = False\<rparr>"
  have p1: "matches ?p ''test.txt'' d = Some True"
    by (simp add: matches_def matchWildcard_test_txt)
  have p2: "matches ?p ''a/test.txt'' d = Some True"
    by (simp add: matches_def matchWildcard_test_txt)
  have p3: "matches ?p ''a/b/test.txt'' d = Some True"
    by (simp add: matches_def matchWildcard_test_txt)
  have q1: "matches ?q path d = Some True \<longleftrightarrow> path = ''a/test.txt''"
    by (auto simp add: matches_def)
  from p1 p2 p3 have ex_p:
    "\<exists>p. AddPattern pl ''**/test.txt'' = Some (pl\<lparr>patterns := patterns pl @ [p]\<rparr>, None) \<and>
        matches p ''test.txt'' d = Some True \<and>
        matches p ''a/test.txt'' d = Some True \<and>
        matches p ''a/b/test.txt'' d = Some True"
    using AddPattern_doublestar_test [of pl] by blast
  from q1 have ex_q:
    "\<exists>q. AddPattern pl ''a/test.txt'' = Some (pl\<lparr>patterns := patterns pl @ [q]\<rparr>, None) \<and>
        (matches q path d = Some True \<longleftrightarrow> path = ''a/test.txt'')"
    using AddPattern_a_test [of pl] by blast
  show ?thesis
    using matchSegments_doublestar_step [of patRest pathSeg pathRest]
      matchSegments_doublestar_absorbs [of patRest pathSegs]
      matchSegments_path_exhausted [of patternSegs] ex_p ex_q
    by (intro conjI)
qed

theorem doublestar_cross_segment_witness:
  "matchSegments [''**'', ''test.txt''] [''a'', ''test.txt''] = Some True \<and>
   matchSegments [''test.txt''] [''a'', ''test.txt''] = Some False \<and>
   matchSegments [''**'', ''test.txt''] [''test.txt''] = Some True \<and>
   matchSegments [''**'', ''x''] [] = Some False \<and>
   matchSegments [''**'', ''**''] [] = Some True"
proof -
  have a: "matchSegments [''test.txt''] [''a'', ''test.txt''] = Some False"
    by (simp add: matchWildcard_test_txt)
  have b: "matchSegments [''**'', ''test.txt''] [''test.txt''] = Some True"
    by (simp add: matchWildcard_test_txt)
  from doublestar_cross_segment
    [of "[''test.txt'']" "''a''" "[''test.txt'']" "[]" "[''**'', ''x'']"]
  have c: "matchSegments [''**'', ''test.txt''] [''a'', ''test.txt''] = Some True"
    and d: "matchSegments [''**'', ''x''] [] = Some False"
    using a b by simp_all
  from doublestar_cross_segment [of "[]" "''a''" "[]" "[]" "[''**'', ''**'']"]
  have e: "matchSegments [''**'', ''**''] [] = Some True"
    by simp
  from a b c d e show ?thesis by simp
qed

text \<open>
  C9. For a pattern segment other than \<open>*\<close> that neither begins nor ends with \<open>*\<close>
  (segments with \<open>?\<close> and segments with an interior \<open>*\<close> among them),
  \<open>matchWildcard\<close> answers whether the path segment is the pattern segment, byte for
  byte; the regular expression it builds takes no part in the answer.
\<close>

theorem matchWildcard_literal_comparison:
  "pattern \<noteq> ''*'' \<Longrightarrow> \<not> HasPrefix pattern ''*'' \<Longrightarrow> \<not> HasSuffix pattern ''*'' \<Longrightarrow>
     matchWildcard pattern path = Some (pattern = path)"
  by (simp add: matchWildcard_def Let_def)

theorem matchWildcard_literal_comparison_witness:
  "''a*b'' \<noteq> ''*'' \<and> \<not> HasPrefix ''a*b'' ''*'' \<and> \<not> HasSuffix ''a*b'' ''*'' \<and>
   matchWildcard ''a*b'' ''axb'' = Some False \<and>
   matchWildcard ''a?b'' ''axb'' = Some False \<and>
   matchWildcard ''a?b'' ''a?b'' = Some True"
proof -
  have h1: "''a*b'' \<noteq> ''*''" and h2: "\<not> HasPrefix ''a*b'' ''*''"
    and h3: "\<not> HasSuffix ''a*b'' ''*''"
    by (simp_all add: HasPrefix_def HasSuffix_def)
  have g1: "''a?b'' \<noteq> ''*''" and g2: "\<not> HasPrefix ''a?b'' ''*''"
    and g3: "\<not> HasSuffix ''a?b'' ''*''"
    by (simp_all add: HasPrefix_def HasSuffix_def)
  show ?thesis
    using h1 h2 h3
      matchWildcard_literal_comparison [OF h1 h2 h3, of "''axb''"]
      matchWildcard_literal_comparison [OF g1 g2 g3, of "''axb''"]
      matchWildcard_literal_comparison [OF g1 g2 g3, of "''a?b''"]
    by simp
qed

text \<open>
  C10. \<open>matchSegments\<close> terminates on every pair of segment lists: each recursive call
  (the relation \<open>matchSegments_rel\<close> between the arguments of a call and the arguments
  of the call that makes it) strictly decreases the sum of the lengths of the two lists,
  every pair of lists is in the domain of the function, and the function returns a
  boolean.
\<close>

theorem matchSegments_terminates:
  "(matchSegments_rel (patternSegs', pathSegs') (patternSegs, pathSegs) \<longrightarrow>
      length patternSegs' + length pathSegs' < length patternSegs + length pathSegs) \<and>
   matchSegments_dom (patternSegs, pathSegs) \<and>
   (\<exists>b. matchSegments patternSegs pathSegs = Some b)"
proof -
  have decr: "length (fst y) + length (snd y) < length (fst x) + length (snd x)"
    if "matchSegments_rel y x" for x y
    using that by (rule matchSegments_rel.cases) auto
  have "wfp matchSegments_rel"
    by (rule wfp_if_convertible_to_nat [where f = "\<lambda>x. length (fst x) + length (snd x)"])
      (rule decr)
  then have dom: "matchSegments_dom (patternSegs, pathSegs)"
    by (rule accp_wfpD)
  have ret: "\<exists>b. matchSegments patternSegs pathSegs = Some b"
    using matchSegments_total [of patternSegs pathSegs] by auto
  from decr [of "(patternSegs', pathSegs')" "(patternSegs, pathSegs)"] dom ret
  show ?thesis by simp
qed

theorem matchSegments_terminates_witness:
  "matchSegments_rel ([''a''], [''x'', ''a'']) ([''**'', ''a''], [''x'', ''a'']) \<and>
   length [''a''] + length [''x'', ''a''] < length [''**'', ''a''] + length [''x'', ''a'']"
proof -
  have r: "matchSegments_rel ([''a''], [''x'', ''a'']) ([''**'', ''a''], [''x'', ''a''])"
    by (rule matchSegments_rel.intros(1)) simp
  with matchSegments_terminates [of "[''a'']" "[''x'', ''a'']" "[''**'', ''a'']" "[''x'', ''a'']"]
  show ?thesis by blast
qed

text \<open>
  C1. \<open>Matches\<close> runs over every rule in file order and, on each rule that matches the
  normalized path, overwrites the running verdict with the negation of the rule's
  negation flag: once the path is resolved and \<open>os.Stat\<close> has answered, the verdict is
  the negation of the flag of the last matching rule, and false when no rule matches.
  For the rule list compiled from \<open>*.log\<close> and \<open>!keep.log\<close> the path \<open>keep.log\<close> is
  not excluded and the path \<open>debug.log\<close>, when it exists, is excluded.
\<close>

theorem Matches_last_match_wins:
  "((if IsAbs path then Rel (basePath pl) path else Some path) = Some rel \<and>
    stat path = Some d \<longrightarrow>
      Matches stat pl path =
        Some (let hits = filter (\<lambda>p. matches p (ToSlash (Clean rel)) d = Some True)
                           (patterns pl)
              in if hits = [] then False else \<not> isNegation (last hits))) \<and>
   (\<exists>pl1 pl2.
      AddPattern \<lparr>patterns = [], basePath = base\<rparr> ''*.log'' = Some (pl1, None) \<and>
      AddPattern pl1 ''!keep.log'' = Some (pl2, None) \<and>
      Matches st pl2 ''keep.log'' = Some False \<and>
      (st ''debug.log'' = Some dd \<longrightarrow> Matches st pl2 ''debug.log'' = Some True))"
proof
  show "(if IsAbs path then Rel (basePath pl) path else Some path) = Some rel \<and>
    stat path = Some d \<longrightarrow>
      Matches stat pl path =
        Some (let hits = filter (\<lambda>p. matches p (ToSlash (Clean rel)) d = Some True)
                           (patterns pl)
              in if hits = [] then False else \<not> isNegation (last hits))"
    by (simp add: Matches_def matchLoop_last_match Let_def)
next
  let ?star = "\<lparr>original = ''*.log'', segments = [''*.log''],
                 isNegation = False, isExact = False, isDir = False\<rparr>"
  let ?keep = "\<lparr>original = ''!keep.log'', segments = [''keep.log''],
                 isNegation = True, isExact = True, isDir = False\<rparr>"
  let ?pl1 = "\<lparr>patterns = [?star], basePath = base\<rparr>"
  let ?pl2 = "\<lparr>patterns = [?star, ?keep], basePath = base\<rparr>"
  have c1: "AddPattern \<lparr>patterns = [], basePath = base\<rparr> ''*.log'' = Some (?pl1, None)"
    by (simp add: AddPattern_star_log)
  have c2: "AddPattern ?pl1 ''!keep.log'' = Some (?pl2, None)"
    by (simp add: AddPattern_not_keep_log)
  have k: "Matches st ?pl2 ''keep.log'' = Some False"
    by (simp add: match_defs split: option.splits)
  have g: "st ''debug.log'' = Some dd \<longrightarrow> Matches st ?pl2 ''debug.log'' = Some True"
    by (simp add: match_defs)
  from c1 c2 k g
  show "\<exists>pl1 pl2.
      AddPattern \<lparr>patterns = [], basePath = base\<rparr> ''*.log'' = Some (pl1, None) \<and>
      AddPattern pl1 ''!keep.log'' = Some (pl2, None) \<and>
      Matches st pl2 ''keep.log'' = Some False \<and>
      (st ''debug.log'' = Some dd \<longrightarrow> Matches st pl2 ''debug.log'' = Some True)"
    by blast
qed

theorem Matches_last_match_wins_witness:
  "\<not> IsAbs ''keep.log'' \<and>
   Matches (\<lambda>p. Some False)
     \<lparr>patterns =
        [\<lparr>original = ''!keep.log'', segments = [''keep.log''],
           isNegation = True, isExact = True, isDir = False\<rparr>,
         \<lparr>original = ''*.log'', segments = [''*.log''],
           isNegation = False, isExact = False, isDir = False\<rparr>],
      basePath = ''/w''\<rparr> ''keep.log'' = Some True"
proof -
  let ?keep = "\<lparr>original = ''!keep.log'', segments = [''keep.log''],
                 isNegation = True, isExact = True, isDir = False\<rparr>"
  let ?star = "\<lparr>original = ''*.log'', segments = [''*.log''],
                 isNegation = False, isExact = False, isDir = False\<rparr>"
  let ?pl = "\<lparr>patterns = [?keep, ?star], basePath = ''/w''\<rparr>"
  have abs: "\<not> IsAbs ''keep.log''"
    by (simp add: IsAbs_def HasPrefix_def)
  have cl: "ToSlash (Clean ''keep.log'') = ''keep.log''"
    by (simp add: ToSlash_def Clean_def HasPrefix_def)
  have m1: "matches ?keep ''keep.log'' False = Some True"
    by (simp add: matches_def)
  have m2: "matches ?star ''keep.log'' False = Some True"
    by (simp add: matches_def matchWildcard_def HasPrefix_def HasSuffix_def slice_def)
  from Matches_last_match_wins
    [where path = "''keep.log''" and pl = ?pl and rel = "''keep.log''"
       and stat = "\<lambda>p. Some False" and d = False]
  have "Matches (\<lambda>p. Some False) ?pl ''keep.log'' = Some True"
    using abs by (simp add: cl m1 m2)
  with abs show ?thesis by simp
qed

text \<open>
  C5. A rule whose source line ends with \<open>/\<close> is compiled as directory-only, and
  \<open>Pattern.matches\<close> returns false for it whenever the directory flag of the candidate is
  false, whatever the path is. The rule \<open>build/\<close> excludes a directory named \<open>build\<close>
  and excludes no candidate that is a file, a file named \<open>build\<close> among them.
\<close>

theorem directory_only_gating:
  "(AddPattern pl line = Some (pl', err) \<and> HasSuffix line ''/'' \<longrightarrow>
      patterns pl' \<noteq> [] \<and> isDir (last (patterns pl')) \<and>
      matches (last (patterns pl')) path False = Some False) \<and>
   (\<exists>pl1.
      AddPattern \<lparr>patterns = [], basePath = base\<rparr> ''build/'' = Some (pl1, None) \<and>
      (st ''build'' = Some True \<longrightarrow> Matches st pl1 ''build'' = Some True) \<and>
      (st file = Some False \<longrightarrow> Matches st pl1 file = Some False))"
proof
  show "AddPattern pl line = Some (pl', err) \<and> HasSuffix line ''/'' \<longrightarrow>
      patterns pl' \<noteq> [] \<and> isDir (last (patterns pl')) \<and>
      matches (last (patterns pl')) path False = Some False"
  proof
    assume h: "AddPattern pl line = Some (pl', err) \<and> HasSuffix line ''/''"
    obtain p where p: "AddPattern pl line = Some (pl\<lparr>patterns := patterns pl @ [p]\<rparr>, None)"
      and d: "isDir p = HasSuffix line ''/''"
      using AddPattern_shape [of pl line] by blast
    from h p have "pl' = pl\<lparr>patterns := patterns pl @ [p]\<rparr>" by simp
    then have l: "patterns pl' \<noteq> []" "last (patterns pl') = p" by simp_all
    from h d have "isDir p" by simp
    with l matches_directory_gate [of p path]
    show "patterns pl' \<noteq> [] \<and> isDir (last (patterns pl')) \<and>
      matches (last (patterns pl')) path False = Some False"
      by simp
  qed
next
  let ?b = "\<lparr>original = ''build/'', segments = [''build''],
              isNegation = False, isExact = True, isDir = True\<rparr>"
  let ?pl1 = "\<lparr>patterns = [?b], basePath = base\<rparr>"
  have c: "AddPattern \<lparr>patterns = [], basePath = base\<rparr> ''build/'' = Some (?pl1, None)"
    by (simp add: AddPattern_build_dir)
  have dir: "st ''build'' = Some True \<longrightarrow> Matches st ?pl1 ''build'' = Some True"
    by (simp add: match_defs)
  have fil: "st file = Some False \<longrightarrow> Matches st ?pl1 file = Some False"
    by (simp add: Matches_def matches_directory_gate Let_def split: option.splits)
  from c dir fil
  show "\<exists>pl1.
      AddPattern \<lparr>patterns = [], basePath = base\<rparr> ''build/'' = Some (pl1, None) \<and>
      (st ''build'' = Some True \<longrightarrow> Matches st pl1 ''build'' = Some True) \<and>
      (st file = Some False \<longrightarrow> Matches st pl1 file = Some False)"
    by blast
qed

theorem directory_only_gating_witness:
  "HasSuffix ''build/'' ''/'' \<and>
   AddPattern \<lparr>patterns = [], basePath = ''/w''\<rparr> ''build/'' =
     Some (\<lparr>patterns = [\<lparr>original = ''build/'', segments = [''build''],
              isNegation = False, isExact = True, isDir = True\<rparr>], basePath = ''/w''\<rparr>, None) \<and>
   matches \<lparr>original = ''build/'', segments = [''build''],
              isNegation = False, isExact = True, isDir = True\<rparr> ''build'' False = Some False \<and>
   matches \<lparr>original = ''build/'', segments = [''build''],
              isNegation = False, isExact = True, isDir = True\<rparr> ''build'' True = Some True"
proof -
  let ?b = "\<lparr>original = ''build/'', segments = [''build''],
              isNegation = False, isExact = True, isDir = True\<rparr>"
  let ?pl1 = "\<lparr>patterns = [?b], basePath = ''/w''\<rparr>"
  have suf: "HasSuffix ''build/'' ''/''"
    by (simp add: HasSuffix_def)
  have c: "AddPattern \<lparr>patterns = [], basePath = ''/w''\<rparr> ''build/'' = Some (?pl1, None)"
    by (simp add: AddPattern_build_dir)
  from directory_only_gating
    [where pl = "\<lparr>patterns = [], basePath = ''/w''\<rparr>" and line = "''build/''"
       and pl' = ?pl1 and err = None and path = "''build''"]
  have f: "matches ?b ''build'' False = Some False"
    using suf c by simp
  have t: "matches ?b ''build'' True = Some True"
    by (simp add: matches_def)
  from suf c f t show ?thesis by simp
qed

text \<open>
  C6. \<open>Matches\<close> never panics and returns no error: it always returns a boolean. When
  the candidate path is absolute and cannot be made relative to the base directory, and
  when \<open>os.Stat\<close> fails on the candidate path, it returns false.
\<close>

theorem Matches_fail_open:
  "Matches stat pl path \<noteq> None \<and>
   (IsAbs path \<and> Rel (basePath pl) path = None \<longrightarrow> Matches stat pl path = Some False) \<and>
   (stat path = None \<longrightarrow> Matches stat pl path = Some False)"
  using Matches_total [of stat pl path]
  by (auto simp: Matches_def Let_def split: option.splits)

theorem Matches_fail_open_witness:
  "IsAbs ''/x/debug.log'' \<and> Rel ''proj'' ''/x/debug.log'' = None \<and>
   Matches (\<lambda>p. Some False)
     \<lparr>patterns = [\<lparr>original = ''**/*.log'', segments = [''**'', ''*.log''],
        isNegation = False, isExact = False, isDir = False\<rparr>], basePath = ''proj''\<rparr>
     ''/x/debug.log'' = Some False \<and>
   Matches (\<lambda>p. None)
     \<lparr>patterns = [\<lparr>original = ''**/*.log'', segments = [''**'', ''*.log''],
        isNegation = False, isExact = False, isDir = False\<rparr>], basePath = ''/x''\<rparr>
     ''/x/debug.log'' = Some False \<and>
   Matches (\<lambda>p. Some False)
     \<lparr>patterns = [\<lparr>original = ''**/*.log'', segments = [''**'', ''*.log''],
        isNegation = False, isExact = False, isDir = False\<rparr>], basePath = ''/x''\<rparr>
     ''/x/debug.log'' = Some True"
proof -
  let ?r = "\<lparr>original = ''**/*.log'', segments = [''**'', ''*.log''],
        isNegation = False, isExact = False, isDir = False\<rparr>"
  have abs: "IsAbs ''/x/debug.log''"
    by (simp add: IsAbs_def HasPrefix_def)
  have rel: "Rel ''proj'' ''/x/debug.log'' = None"
    by (simp add: Rel_def Clean_def HasPrefix_def Let_def)
  from Matches_fail_open
    [of "\<lambda>p. Some False" "\<lparr>patterns = [?r], basePath = ''proj''\<rparr>" "''/x/debug.log''"]
  have a: "Matches (\<lambda>p. Some False) \<lparr>patterns = [?r], basePath = ''proj''\<rparr>
     ''/x/debug.log'' = Some False"
    using abs rel by simp
  from Matches_fail_open
    [of "\<lambda>p. None" "\<lparr>patterns = [?r], basePath = ''/x''\<rparr>" "''/x/debug.log''"]
  have b: "Matches (\<lambda>p. None) \<lparr>patterns = [?r], basePath = ''/x''\<rparr>
     ''/x/debug.log'' = Some False"
    by simp
  have rel2: "Rel ''/x'' ''/x/debug.log'' = Some ''debug.log''"
    by (simp add: Rel_def Clean_def HasPrefix_def pathElems_def Let_def)
  have c: "Matches (\<lambda>p. Some False) \<lparr>patterns = [?r], basePath = ''/x''\<rparr>
     ''/x/debug.log'' = Some True"
    by (simp add: Matches_def abs rel2)
      (simp add: matches_def matchWildcard_def HasPrefix_def HasSuffix_def slice_def
         Clean_def ToSlash_def)
  from abs rel a b c show ?thesis by simp
qed

text \<open>
  C7. The verdict is total and deterministic: \<open>Matches\<close> always returns a boolean, and
  the verdict is a function of the rule list with its base directory, the candidate path
  and what \<open>os.Stat\<close> answers for that path (the directory flag); nothing else of the
  file system and no state of an earlier call enters into it.
\<close>

theorem Matches_deterministic:
  "(\<exists>b. Matches stat pl path = Some b) \<and>
   (stat path = stat' path \<longrightarrow> Matches stat pl path = Matches stat' pl path)"
proof
  show "\<exists>b. Matches stat pl path = Some b"
    using Matches_total [of stat pl path] by auto
  show "stat path = stat' path \<longrightarrow> Matches stat pl path = Matches stat' pl path"
  proof
    assume eq: "stat path = stat' path"
    show "Matches stat pl path = Matches stat' pl path"
      unfolding Matches_def eq by (rule refl)
  qed
qed

theorem Matches_deterministic_witness:
  "Matches (\<lambda>p. if p = ''debug.log'' then Some False else None)
     \<lparr>patterns = [\<lparr>original = ''*.log'', segments = [''*.log''],
        isNegation = False, isExact = False, isDir = False\<rparr>], basePath = ''/w''\<rparr>
     ''debug.log'' =
   Matches (\<lambda>p. Some False)
     \<lparr>patterns = [\<lparr>original = ''*.log'', segments = [''*.log''],
        isNegation = False, isExact = False, isDir = False\<rparr>], basePath = ''/w''\<rparr>
     ''debug.log''"
  using Matches_deterministic
    [of "\<lambda>p. if p = ''debug.log'' then Some False else None"
        "\<lparr>patterns = [\<lparr>original = ''*.log'', segments = [''*.log''],
           isNegation = False, isExact = False, isDir = False\<rparr>], basePath = ''/w''\<rparr>"
        "''debug.log''" "\<lambda>p. Some False"]
  by simp

text \<open>
  C2. The specification asks for anchored matching of a segment in which \<open>*\<close> is any
  run of characters and \<open>?\<close> is exactly one character. \<open>matchWildcard\<close> builds that
  regular expression and does not apply it: a \<open>*\<close> inside a segment and every \<open>?\<close>
  are compared literally. The segment \<open>axb\<close> matches the pattern \<open>a*b\<close> and the
  segment \<open>a\<close> matches the pattern \<open>?\<close> in the specification's sense, and
  \<open>matchWildcard\<close> returns false for both; the rule \<open>a*b\<close> does not exclude the file
  \<open>axb\<close>. The consequence the claim draws holds: \<open>*.go\<close> matches \<open>main.go\<close> and
  does not match \<open>src/main.go\<close>.
\<close>

theorem matchWildcard_misses_interior_wildcards:
  "matchWildcard ''a*b'' ''axb'' = Some False \<and> specWildcard ''a*b'' ''axb'' \<and>
   matchWildcard ''?'' ''a'' = Some False \<and> specWildcard ''?'' ''a'' \<and>
   (\<exists>pl1. AddPattern \<lparr>patterns = [], basePath = ''/w''\<rparr> ''a*b'' = Some (pl1, None) \<and>
          Matches (\<lambda>p. Some False) pl1 ''axb'' = Some False) \<and>
   (\<exists>pl2 p. AddPattern \<lparr>patterns = [], basePath = ''/w''\<rparr> ''*.go'' = Some (pl2, None) \<and>
          patterns pl2 = [p] \<and>
          matches p ''main.go'' False = Some True \<and>
          matches p ''src/main.go'' False = Some False)"
proof -
  let ?r = "\<lparr>original = ''a*b'', segments = [''a*b''],
              isNegation = False, isExact = False, isDir = False\<rparr>"
  let ?g = "\<lparr>original = ''*.go'', segments = [''*.go''],
              isNegation = False, isExact = False, isDir = False\<rparr>"
  have w1: "matchWildcard ''a*b'' ''axb'' = Some False"
    by (simp add: matchWildcard_def HasPrefix_def HasSuffix_def)
  have w2: "matchWildcard ''?'' ''a'' = Some False"
    by (simp add: matchWildcard_def HasPrefix_def HasSuffix_def)
  have s1: "specWildcard ''a*b'' ''axb''" by simp
  have s2: "specWildcard ''?'' ''a''" by simp
  have c: "AddPattern \<lparr>patterns = [], basePath = ''/w''\<rparr> ''a*b'' =
      Some (\<lparr>patterns = [?r], basePath = ''/w''\<rparr>, None)"
    by (simp add: compile_defs)
  have m: "Matches (\<lambda>p. Some False) \<lparr>patterns = [?r], basePath = ''/w''\<rparr> ''axb'' = Some False"
    by (simp add: match_defs)
  have cg: "AddPattern \<lparr>patterns = [], basePath = ''/w''\<rparr> ''*.go'' =
      Some (\<lparr>patterns = [?g], basePath = ''/w''\<rparr>, None)"
    by (simp add: compile_defs)
  have g1: "matches ?g ''main.go'' False = Some True"
    by (simp add: matches_def matchWildcard_def HasPrefix_def HasSuffix_def slice_def)
  have g2: "matches ?g ''src/main.go'' False = Some False"
    by (simp add: matches_def matchWildcard_def HasPrefix_def HasSuffix_def slice_def)
  from c m have e1:
    "\<exists>pl1. AddPattern \<lparr>patterns = [], basePath = ''/w''\<rparr> ''a*b'' = Some (pl1, None) \<and>
          Matches (\<lambda>p. Some False) pl1 ''axb'' = Some False"
    by blast
  from cg g1 g2 have e2:
    "\<exists>pl2 p. AddPattern \<lparr>patterns = [], basePath = ''/w''\<rparr> ''*.go'' = Some (pl2, None) \<and>
          patterns pl2 = [p] \<and>
          matches p ''main.go'' False = Some True \<and>
          matches p ''src/main.go'' False = Some False"
    by (intro exI [of _ "\<lparr>patterns = [?g], basePath = ''/w''\<rparr>"] exI [of _ ?g]) simp
  from w1 s1 w2 s2 e1 e2 show ?thesis by (intro conjI)
qed

theorem matchWildcard_misses_interior_wildcards_witness:
  "matchWildcard ''a*b'' ''axb'' \<noteq> Some (specWildcard ''a*b'' ''axb'') \<and>
   matchWildcard ''?'' ''a'' \<noteq> Some (specWildcard ''?'' ''a'')"
  using matchWildcard_misses_interior_wildcards by simp

text \<open>
  C3. The claim has the exact flag true exactly when the pattern has neither \<open>*\<close> nor
  \<open>?\<close>. \<open>AddPattern\<close> computes it as ``no \<open>*\<close>, or some \<open>?\<close>'': the line \<open>a?b\<close>,
  and the line \<open>*.t?t\<close> as well, is compiled as an exact rule and compared literally, so
  that it matches the path of the same spelling and no other.
\<close>

theorem AddPattern_question_mark_is_exact:
  "(\<exists>p. AddPattern pl ''a?b'' = Some (pl\<lparr>patterns := patterns pl @ [p]\<rparr>, None) \<and>
        isExact p \<and>
        matches p ''axb'' False = Some False \<and>
        matches p ''a?b'' False = Some True) \<and>
   (\<exists>q. AddPattern pl ''*.t?t'' = Some (pl\<lparr>patterns := patterns pl @ [q]\<rparr>, None) \<and>
        isExact q \<and>
        matches q ''a.txt'' False = Some False \<and>
        matches q ''*.t?t'' False = Some True)"
proof
  let ?p = "\<lparr>original = ''a?b'', segments = [''a?b''],
              isNegation = False, isExact = True, isDir = False\<rparr>"
  have c: "AddPattern pl ''a?b'' = Some (pl\<lparr>patterns := patterns pl @ [?p]\<rparr>, None)"
    by (simp add: compile_defs)
  have m: "matches ?p ''axb'' False = Some False" "matches ?p ''a?b'' False = Some True"
    by (simp_all add: matches_def)
  from c m show "\<exists>p. AddPattern pl ''a?b'' = Some (pl\<lparr>patterns := patterns pl @ [p]\<rparr>, None) \<and>
        isExact p \<and>
        matches p ''axb'' False = Some False \<and>
        matches p ''a?b'' False = Some True"
    by (intro exI [of _ ?p]) simp
next
  let ?q = "\<lparr>original = ''*.t?t'', segments = [''*.t?t''],
              isNegation = False, isExact = True, isDir = False\<rparr>"
  have c: "AddPattern pl ''*.t?t'' = Some (pl\<lparr>patterns := patterns pl @ [?q]\<rparr>, None)"
    by (simp add: compile_defs)
  have m: "matches ?q ''a.txt'' False = Some False" "matches ?q ''*.t?t'' False = Some True"
    by (simp_all add: matches_def)
  from c m show "\<exists>q. AddPattern pl ''*.t?t'' = Some (pl\<lparr>patterns := patterns pl @ [q]\<rparr>, None) \<and>
        isExact q \<and>
        matches q ''a.txt'' False = Some False \<and>
        matches q ''*.t?t'' False = Some True"
    by (intro exI [of _ ?q]) simp
qed

theorem AddPattern_question_mark_is_exact_witness:
  "\<exists>p. AddPattern \<lparr>patterns = [], basePath = ''/w''\<rparr> ''a?b'' =
          Some (\<lparr>patterns = [p], basePath = ''/w''\<rparr>, None) \<and>
        isExact p \<and> matches p ''axb'' False = Some False"
  using AddPattern_question_mark_is_exact [of "\<lparr>patterns = [], basePath = ''/w''\<rparr>"]
  by auto

subsection \<open>The rule file\<close>

lemma addLines_total: "\<exists>pl'. addLines pl lines = Some (Some pl', None)"
proof (induction lines arbitrary: pl)
  case Nil
  show ?case by simp
next
  case (Cons ln rest)
  show ?case
  proof (cases "TrimSpace ln = [] \<or> HasPrefix (TrimSpace ln) ''#''")
    case True
    with Cons [of pl] show ?thesis by (simp add: Let_def)
  next
    case False
    obtain p where
      "AddPattern pl (TrimSpace ln) = Some (pl\<lparr>patterns := patterns pl @ [p]\<rparr>, None)"
      using AddPattern_shape [of pl "TrimSpace ln"] by blast
    with False Cons [of "pl\<lparr>patterns := patterns pl @ [p]\<rparr>"] show ?thesis
      by (simp add: Let_def)
  qed
qed

lemma Split_takeWhile:
  "Split buf sep =
     takeWhile (\<lambda>c. c \<noteq> sep) buf #
       (if dropWhile (\<lambda>c. c \<noteq> sep) buf = [] then []
        else Split (tl (dropWhile (\<lambda>c. c \<noteq> sep) buf)) sep)"
  by (induction buf) auto

text \<open>The scanner reports either the error of the reads or a line that is too long.\<close>

lemma scanAll_error:
  "snd (scanAll buf rerr) = Some e \<Longrightarrow>
     rerr = Some e \<or>
     (e = ErrTooLong \<and> (\<exists>l\<in>set (Split buf (CHR 0x0A)). MaxScanTokenSize \<le> length l))"
proof (induction buf rerr rule: scanAll.induct)
  case (1 buf rerr)
  let ?line = "takeWhile (\<lambda>c. c \<noteq> CHR 0x0A) buf"
  let ?rest = "dropWhile (\<lambda>c. c \<noteq> CHR 0x0A) buf"
  have sp: "Split buf (CHR 0x0A) =
      ?line # (if ?rest = [] then [] else Split (tl ?rest) (CHR 0x0A))"
    by (rule Split_takeWhile)
  have unf: "scanAll buf rerr =
      (if MaxScanTokenSize \<le> length ?line then ([], Some ErrTooLong)
       else if ?rest = [] then (if ?line = [] then [] else [dropCR ?line], rerr)
       else (case scanAll (tl ?rest) rerr of (ls, e) \<Rightarrow> (dropCR ?line # ls, e)))"
    by (subst scanAll.simps) (simp only: Let_def)
  show ?case
  proof (cases "MaxScanTokenSize \<le> length ?line")
    case True
    then have "scanAll buf rerr = ([], Some ErrTooLong)"
      by (simp only: unf if_True)
    with "1.prems" have "e = ErrTooLong" by simp
    moreover from True sp have "\<exists>l\<in>set (Split buf (CHR 0x0A)). MaxScanTokenSize \<le> length l"
      by simp
    ultimately show ?thesis by blast
  next
    case short: False
    show ?thesis
    proof (cases "?rest = []")
      case True
      with short have "scanAll buf rerr = (if ?line = [] then [] else [dropCR ?line], rerr)"
        by (simp only: unf if_True if_False simp_thms)
      with "1.prems" have "rerr = Some e" by simp
      then show ?thesis by blast
    next
      case False
      with short have eq: "scanAll buf rerr =
          (case scanAll (tl ?rest) rerr of (ls, e) \<Rightarrow> (dropCR ?line # ls, e))"
        by (simp only: unf if_False simp_thms)
      obtain ls se where rec: "scanAll (tl ?rest) rerr = (ls, se)"
        by (cases "scanAll (tl ?rest) rerr")
      with eq "1.prems" have "snd (scanAll (tl ?rest) rerr) = Some e" by simp
      with "1.IH" [OF refl refl short False] have
        "rerr = Some e \<or>
         (e = ErrTooLong \<and> (\<exists>l\<in>set (Split (tl ?rest) (CHR 0x0A)). MaxScanTokenSize \<le> length l))"
        by simp
      moreover from sp False have
        "set (Split (tl ?rest) (CHR 0x0A)) \<subseteq> set (Split buf (CHR 0x0A))"
        by auto
      ultimately show ?thesis by blast
    qed
  qed
qed

lemma scanAll_long_line:
  "scanAll (replicate MaxScanTokenSize (CHR ''a'')) None = ([], Some ErrTooLong)"
  by (subst scanAll.simps) (simp add: Let_def)

text \<open>
  C8, as stated, fails: a rule file that is created, opened and read without any failure
  of the operating system, and whose only line has \<open>MaxScanTokenSize\<close> bytes, makes
  \<open>NewPatternList\<close> return the error \<open>ErrTooLong\<close>.
\<close>

theorem NewPatternList_long_line_error:
  "NewPatternList
     \<lparr>notExist = False, writeErr = None, openErr = None,
      content = replicate MaxScanTokenSize (CHR ''a''), readErr = None\<rparr>
     ''.project_structure_ignore'' ''/w'' =
   Some (Some \<lparr>patterns = [], basePath = ''/w''\<rparr>, Some ErrTooLong)"
  by (simp add: NewPatternList_def scanAll_long_line)

text \<open>
  C8, amended. \<open>AddPattern\<close> returns for every line, with the compiled pattern appended
  and no error, whatever wildcard syntax the line has. \<open>NewPatternList\<close> always returns,
  and it returns an error only when the missing rule file cannot be created, when the
  rule file cannot be opened, when a read of it fails, or when one of its lines has
  \<open>MaxScanTokenSize\<close> bytes or more.
\<close>

theorem NewPatternList_error_sources:
  "(\<exists>p. AddPattern pl line = Some (pl\<lparr>patterns := patterns pl @ [p]\<rparr>, None)) \<and>
   NewPatternList f filename base \<noteq> None \<and>
   (NewPatternList f filename base = Some (r, Some e) \<longrightarrow>
      (notExist f \<and> writeErr f \<noteq> None) \<or>
      (\<not> notExist f \<and> openErr f \<noteq> None) \<or>
      (\<not> notExist f \<and> openErr f = None \<and>
         (readErr f = Some e \<or>
          (e = ErrTooLong \<and>
           (\<exists>l\<in>set (Split (content f) (CHR 0x0A)). MaxScanTokenSize \<le> length l)))))"
proof (intro conjI)
  show "\<exists>p. AddPattern pl line = Some (pl\<lparr>patterns := patterns pl @ [p]\<rparr>, None)"
    using AddPattern_shape [of pl line] by blast
next
  obtain ls se where sc: "scanAll (content f) (readErr f) = (ls, se)"
    by (cases "scanAll (content f) (readErr f)")
  obtain pl' where al: "addLines \<lparr>patterns = [], basePath = base\<rparr> ls = Some (Some pl', None)"
    using addLines_total by blast
  show "NewPatternList f filename base \<noteq> None"
    by (auto simp add: NewPatternList_def sc al Let_def split: option.splits)
  show "NewPatternList f filename base = Some (r, Some e) \<longrightarrow>
      (notExist f \<and> writeErr f \<noteq> None) \<or>
      (\<not> notExist f \<and> openErr f \<noteq> None) \<or>
      (\<not> notExist f \<and> openErr f = None \<and>
         (readErr f = Some e \<or>
          (e = ErrTooLong \<and>
           (\<exists>l\<in>set (Split (content f) (CHR 0x0A)). MaxScanTokenSize \<le> length l))))"
  proof
    assume res: "NewPatternList f filename base = Some (r, Some e)"
    show "(notExist f \<and> writeErr f \<noteq> None) \<or>
      (\<not> notExist f \<and> openErr f \<noteq> None) \<or>
      (\<not> notExist f \<and> openErr f = None \<and>
         (readErr f = Some e \<or>
          (e = ErrTooLong \<and>
           (\<exists>l\<in>set (Split (content f) (CHR 0x0A)). MaxScanTokenSize \<le> length l))))"
    proof (cases "notExist f")
      case True
      with res show ?thesis
        by (auto simp add: NewPatternList_def Let_def split: option.splits)
    next
      case ne: False
      show ?thesis
      proof (cases "openErr f")
        case (Some err)
        with ne show ?thesis by simp
      next
        case None
        with ne res have "se = Some e"
          by (simp add: NewPatternList_def sc al Let_def)
        with sc have "snd (scanAll (content f) (readErr f)) = Some e" by simp
        from scanAll_error [OF this] ne None show ?thesis by blast
      qed
    qed
  qed
qed

theorem NewPatternList_error_sources_witness:
  "NewPatternList
     \<lparr>notExist = False, writeErr = None, openErr = None,
      content = ''*.log'', readErr = Some (OSError ''input/output error'')\<rparr>
     ''.project_structure_ignore'' ''/w'' =
   Some (Some \<lparr>patterns = [\<lparr>original = ''*.log'', segments = [''*.log''],
           isNegation = False, isExact = False, isDir = False\<rparr>], basePath = ''/w''\<rparr>,
         Some (OSError ''input/output error'')) \<and>
   readErr \<lparr>notExist = False, writeErr = None, openErr = None,
      content = ''*.log'', readErr = Some (OSError ''input/output error'')\<rparr> =
     Some (OSError ''input/output error'')"
proof -
  let ?f = "\<lparr>notExist = False, writeErr = None, openErr = None,
      content = ''*.log'', readErr = Some (OSError ''input/output error'')\<rparr>"
  let ?pl = "\<lparr>patterns = [\<lparr>original = ''*.log'', segments = [''*.log''],
           isNegation = False, isExact = False, isDir = False\<rparr>], basePath = ''/w''\<rparr>"
  have sc: "scanAll ''*.log'' (Some (OSError ''input/output error'')) =
      ([''*.log''], Some (OSError ''input/output error''))"
    by (subst scanAll.simps) (simp add: Let_def MaxScanTokenSize_def dropCR_def)
  have fl: "find (\<lambda>r. HasPrefix ''*.log'' r) spaceRunes = None"
    by (simp add: spaceRunes_def HasPrefix_def)
  have fr: "find (\<lambda>r. HasSuffix ''*.log'' r) spaceRunes = None"
    by (simp add: spaceRunes_def HasSuffix_def)
  have tr: "TrimSpace ''*.log'' = ''*.log''"
    unfolding TrimSpace_def
    by (subst trimLeft.simps, simp only: fl option.case, subst trimRight.simps,
        simp only: fr option.case)
  have res: "NewPatternList ?f ''.project_structure_ignore'' ''/w'' =
      Some (Some ?pl, Some (OSError ''input/output error''))"
    by (simp add: NewPatternList_def sc tr AddPattern_star_log HasPrefix_def Let_def)
  from NewPatternList_error_sources
    [where f = ?f and filename = "''.project_structure_ignore''" and base = "''/w''"
       and r = "Some ?pl" and e = "OSError ''input/output error''"
       and pl = "\<lparr>patterns = [], basePath = ''/w''\<rparr>" and line = "''*.log''"]
  have "readErr ?f = Some (OSError ''input/output error'')"
    using res by simp
  with res show ?thesis by simp
qed

end
